theory Spec2Isabelle
  imports Main
begin

section \<open>Python values and exceptions\<close>

text \<open>
  The values that travel through the instrumentation: attribute values, command
  arguments and results of the wrapped client call.
\<close>

datatype pyval = PNone | PBool bool | PInt int | PStr string | PBytes string

text \<open>
  A raised exception: whether its class derives from \<open>Exception\<close> (what an
  \<open>except Exception\<close> clause tests; \<open>KeyboardInterrupt\<close>, \<open>SystemExit\<close> and
  \<open>GeneratorExit\<close> derive from \<open>BaseException\<close> only), the class name, and the text
  that \<open>str(e)\<close> returns, and the truth value of the exception object (what
  \<open>if exc:\<close> tests): true unless the class defines \<open>__bool__\<close> or \<open>__len__\<close> to make
  it false. The built-in exceptions are truthy.
\<close>

datatype exn = Exn (is_Exception: bool) (exn_class: string) (exn_str: string) (truthy: bool)

definition AttributeError :: "string \<Rightarrow> exn" where
  "AttributeError msg = Exn True ''AttributeError'' msg True"

definition IndexError :: "string \<Rightarrow> exn" where
  "IndexError msg = Exn True ''IndexError'' msg True"

definition TypeError :: "string \<Rightarrow> exn" where
  "TypeError msg = Exn True ''TypeError'' msg True"

definition RecursionError :: exn where
  "RecursionError = Exn True ''RecursionError'' ''maximum recursion depth exceeded'' True"

section \<open>Spans (the tracing library's data model)\<close>

text \<open>
  Span objects are mutable and shared: the open-span list, the context store and the
  \<open>parent_span\<close> field of a child all refer to the same object. A span is therefore
  named by its identity (a \<open>nat\<close>, the order of allocation) and lives in a heap.

  \<open>parent_span\<close> is a \<open>NullContextManager\<close> carrying the inbound span id, another
  span, or Python's \<open>None\<close>.
\<close>

datatype parent = NoParent | NullContextManager "string option" | ParentSpan nat

record span =
  name :: string
  parent_span :: parent
  span_id :: string
  attributes :: "string \<rightharpoonup> pyval"
  start_time :: "nat option"
  end_time :: "nat option"
  children :: "nat list"

text \<open>
  \<open>Span(name, parent_span=..., context_tracer=self)\<close>: no times, no attributes, no
  children, a generated span id. The constructor does not register the new span in
  its parent's child list (only \<open>Span.span\<close> does, which the tracer never calls).
\<close>

definition Span :: "string \<Rightarrow> parent \<Rightarrow> string \<Rightarrow> span" where
  "Span nm par sid =
     \<lparr>name = nm, parent_span = par, span_id = sid, attributes = Map.empty,
      start_time = None, end_time = None, children = []\<rparr>"

text \<open>The span context of the tracer: trace id, current span id, and the two flags
  the HTTP middleware reads.\<close>

record span_context =
  trace_id :: string
  sc_span_id :: "string option"
  from_header :: bool
  enabled :: bool

text \<open>
  One exported record (\<open>SpanData\<close>). \<open>sd_source\<close> is the identity of the span the
  record was built from; the other fields are those of \<open>SpanData\<close> that this
  repository ever sets (stack trace, time events, links, status and span kind stay at
  the library's defaults and are left out).
\<close>

record span_data =
  sd_source :: nat
  sd_name :: string
  sd_context :: span_context
  sd_span_id :: string
  sd_parent_span_id :: "string option"
  sd_attributes :: "string \<rightharpoonup> pyval"
  sd_start_time :: "nat option"
  sd_end_time :: "nat option"
  sd_child_span_count :: nat

text \<open>The tracer object that the context store can hold: the context tracer of this
  repository, or the library's no-op tracer (every method does nothing).\<close>

datatype tracer = ContextTracer | NoopTracer

section \<open>The state: one logical task and its context tracer\<close>

text \<open>
  The model follows one logical task. Its state is the heap of span objects, the
  fields of the task's \<open>ContextTracer\<close> (\<open>spans_list\<close> for \<open>_spans_list\<close>,
  \<open>span_context\<close>), the batches its exporter has received, in order, the two slots
  of the context store for this task, the warnings logged, the wall clock and the
  supply of generated span ids.
\<close>

record state =
  heap :: "nat \<Rightarrow> span"
  next_ref :: nat
  spans_list :: "nat list"
  span_context :: span_context
  exported :: "span_data list list"
  task_current_span :: "nat option"
  task_tracer :: "tracer option"
  warnings :: "string list"
  clock :: nat
  id_supply :: "nat \<Rightarrow> string"

subsection \<open>The context store\<close>

text \<open>
  Modelled from the spec: the module \<open>asyncio_context\<close> of this repository is not
  among the sources. The spec gives its contract (section 4.1): \<open>set_current_span\<close>
  associates a span with the calling task, \<open>get_current_span\<close> returns that
  association or none if never set, and the same for the tracer.
\<close>

definition get_current_span :: "state \<Rightarrow> nat option" where
  "get_current_span s = task_current_span s"

definition set_current_span :: "nat option \<Rightarrow> state \<Rightarrow> state" where
  "set_current_span v s = s\<lparr>task_current_span := v\<rparr>"

definition get_opencensus_tracer :: "state \<Rightarrow> tracer option" where
  "get_opencensus_tracer s = task_tracer s"

definition set_opencensus_tracer :: "tracer option \<Rightarrow> state \<Rightarrow> state" where
  "set_opencensus_tracer v s = s\<lparr>task_tracer := v\<rparr>"

subsection \<open>Methods of the library's Span\<close>

definition Span_start :: "nat \<Rightarrow> state \<Rightarrow> state" where
  "Span_start r s = s\<lparr>heap := (heap s)(r := (heap s r)\<lparr>start_time := Some (clock s)\<rparr>)\<rparr>"

definition Span_finish :: "nat \<Rightarrow> state \<Rightarrow> state" where
  "Span_finish r s = s\<lparr>heap := (heap s)(r := (heap s r)\<lparr>end_time := Some (clock s)\<rparr>)\<rparr>"

definition Span_add_attribute :: "nat \<Rightarrow> string \<Rightarrow> pyval \<Rightarrow> state \<Rightarrow> state" where
  "Span_add_attribute r k v s =
     s\<lparr>heap := (heap s)(r := (heap s r)\<lparr>attributes := (attributes (heap s r))(k \<mapsto> v)\<rparr>)\<rparr>"

definition Span_set_name :: "nat \<Rightarrow> string \<Rightarrow> state \<Rightarrow> state" where
  "Span_set_name r nm s = s\<lparr>heap := (heap s)(r := (heap s r)\<lparr>name := nm\<rparr>)\<rparr>"


text \<open>
  \<open>Span.__iter__\<close>: the spans of the subtree, children first, the span itself last.
  The generators nest one level per tree level; the first argument bounds the
  nesting as the interpreter's recursion limit does, and running out of it is the
  \<open>RecursionError\<close> Python raises.
\<close>

fun chain_iter :: "(exn + nat list) list \<Rightarrow> exn + nat list" where
  "chain_iter [] = Inr []"
| "chain_iter (Inl e # rest) = Inl e"
| "chain_iter (Inr xs # rest) =
     (case chain_iter rest of Inl e \<Rightarrow> Inl e | Inr ys \<Rightarrow> Inr (xs @ ys))"

fun iter_span :: "nat \<Rightarrow> (nat \<Rightarrow> span) \<Rightarrow> nat \<Rightarrow> exn + nat list" where
  "iter_span 0 h r = Inl RecursionError"
| "iter_span (Suc n) h r =
     (case chain_iter (map (iter_span n h) (children (h r))) of
        Inl e \<Rightarrow> Inl e
      | Inr xs \<Rightarrow> Inr (xs @ [r]))"

definition recursion_limit :: nat where
  "recursion_limit = 1000"

section \<open>ContextTracer\<close>

text \<open>\<open>ContextTracer.__init__\<close> in a task whose context store was never written:
  an empty open-span list, the given span context, an exporter that has received
  nothing.\<close>

definition new_tracer :: "span_context \<Rightarrow> nat \<Rightarrow> (nat \<Rightarrow> string) \<Rightarrow> state" where
  "new_tracer sc now ids =
     \<lparr>heap = (\<lambda>r. Span [] NoParent []), next_ref = 0, spans_list = [],
      span_context = sc, exported = [], task_current_span = None, task_tracer = None,
      warnings = [], clock = now, id_supply = ids\<rparr>"

definition current_span :: "state \<Rightarrow> nat option" where
  "current_span s = get_current_span s"

definition list_collected_spans :: "state \<Rightarrow> nat list" where
  "list_collected_spans s = spans_list s"

definition start_span :: "string \<Rightarrow> state \<Rightarrow> nat \<times> state" where
  "start_span nm s =
     (let par = (case current_span s of
                   None \<Rightarrow> NullContextManager (sc_span_id (span_context s))
                 | Some p \<Rightarrow> ParentSpan p);
          r = next_ref s;
          sp = Span nm par (id_supply s r);
          s1 = s\<lparr>heap := (heap s)(r := sp), next_ref := Suc r\<rparr>;
          s2 = s1\<lparr>spans_list := spans_list s1 @ [r]\<rparr>;
          s3 = s2\<lparr>span_context := (span_context s2)\<lparr>sc_span_id := Some (span_id sp)\<rparr>\<rparr>;
          s4 = set_current_span (Some r) s3;
          s5 = Span_start r s4
      in (r, s5))"

text \<open>\<open>get_span_datas\<close>: one record per span of the subtree of \<open>r\<close>.\<close>

definition span_data_of :: "state \<Rightarrow> nat \<Rightarrow> span_data" where
  "span_data_of s r =
     (let sp = heap s r in
      \<lparr>sd_source = r, sd_name = name sp, sd_context = span_context s,
       sd_span_id = span_id sp,
       sd_parent_span_id =
         (case parent_span sp of
            NoParent \<Rightarrow> None
          | NullContextManager i \<Rightarrow> i
          | ParentSpan q \<Rightarrow> Some (span_id (heap s q))),
       sd_attributes = attributes sp, sd_start_time = start_time sp,
       sd_end_time = end_time sp, sd_child_span_count = length (children sp)\<rparr>)"

definition get_span_datas :: "nat \<Rightarrow> state \<Rightarrow> exn + span_data list" where
  "get_span_datas r s =
     (case iter_span recursion_limit (heap s) r of
        Inl e \<Rightarrow> Inl e
      | Inr span_tree \<Rightarrow> Inr (map (span_data_of s) span_tree))"

text \<open>The exporter is an opaque sink: it receives the batch.\<close>

definition exporter_export :: "span_data list \<Rightarrow> state \<Rightarrow> state" where
  "exporter_export batch s = s\<lparr>exported := exported s @ [batch]\<rparr>"

definition end_span :: "state \<Rightarrow> (exn + nat option) \<times> state" where
  "end_span s =
     (let cur0 = current_span s;
          cur = (if cur0 = None \<and> spans_list s \<noteq> [] then Some (last (spans_list s))
                 else cur0)
      in case cur of
           None \<Rightarrow>
             (Inr None, s\<lparr>warnings := warnings s @ [''No active span, cannot do end_span.'']\<rparr>)
         | Some c \<Rightarrow>
             (let s1 = Span_finish c s;
                  par = parent_span (heap s1 c);
                  s2 = s1\<lparr>span_context := (span_context s1)\<lparr>sc_span_id :=
                          (case par of
                             NoParent \<Rightarrow> None
                           | NullContextManager i \<Rightarrow> i
                           | ParentSpan q \<Rightarrow> Some (span_id (heap s1 q)))\<rparr>\<rparr>;
                  s3 = (case par of
                          ParentSpan q \<Rightarrow> set_current_span (Some q) s2
                        | _ \<Rightarrow> set_current_span None s2)
              in if c \<in> set (spans_list s3) then
                   (case get_span_datas c s3 of
                      Inl e \<Rightarrow> (Inl e, s3)
                    | Inr span_datas \<Rightarrow>
                        (Inr (Some c),
                         (exporter_export span_datas s3)\<lparr>spans_list := remove1 c (spans_list s3)\<rparr>))
                 else (Inr (Some c), s3)))"

definition add_attribute_to_current_span ::
  "string \<Rightarrow> pyval \<Rightarrow> state \<Rightarrow> (exn + unit) \<times> state" where
  "add_attribute_to_current_span k v s =
     (case current_span s of
        None \<Rightarrow> (Inl (AttributeError ''NoneType object has no attribute add_attribute''), s)
      | Some c \<Rightarrow> (Inr (), Span_add_attribute c k v s))"

text \<open>\<open>finish\<close>: \<open>while self._spans_list: self.end_span()\<close>. Not returning is the
  value \<open>None\<close>.\<close>

partial_function (option) finish :: "state \<Rightarrow> ((exn + unit) \<times> state) option" where
  "finish s =
     (if spans_list s \<noteq> [] then
        (case end_span s of
           (Inl e, s') \<Rightarrow> Some (Inl e, s')
         | (Inr _, s') \<Rightarrow> finish s')
      else Some (Inr (), s))"

subsection \<open>Sequences of calls on one tracer\<close>

datatype call = StartSpan string | EndSpan

text \<open>The calls in order; a call that raises ends the sequence with its exception.\<close>

fun run :: "call list \<Rightarrow> state \<Rightarrow> exn + state" where
  "run [] s = Inr s"
| "run (StartSpan nm # cs) s = run cs (snd (start_span nm s))"
| "run (EndSpan # cs) s =
     (case end_span s of (Inl e, s') \<Rightarrow> Inl e | (Inr ended, s') \<Rightarrow> run cs s')"

text \<open>Nested \<open>start_span\<close> calls, one per name, with the spans they return; and
  \<open>end_span\<close> called \<open>n\<close> times in a row, with what each call returns.\<close>

fun start_spans :: "string list \<Rightarrow> state \<Rightarrow> nat list \<times> state" where
  "start_spans [] s = ([], s)"
| "start_spans (nm # nms) s =
     (case start_span nm s of (r, s1) \<Rightarrow>
        (case start_spans nms s1 of (rs, s2) \<Rightarrow> (r # rs, s2)))"

fun end_spans :: "nat \<Rightarrow> state \<Rightarrow> (exn + nat option list) \<times> state" where
  "end_spans 0 s = (Inr [], s)"
| "end_spans (Suc n) s =
     (case end_span s of
        (Inl e, s1) \<Rightarrow> (Inl e, s1)
      | (Inr ended, s1) \<Rightarrow>
          (case end_spans n s1 of
             (Inl e, s2) \<Rightarrow> (Inl e, s2)
           | (Inr rest, s2) \<Rightarrow> (Inr (ended # rest), s2)))"

text \<open>How many records built from span \<open>r\<close> the exporter has received, over all its
  batches.\<close>

definition export_count :: "nat \<Rightarrow> state \<Rightarrow> nat" where
  "export_count r s = length (filter (\<lambda>d. sd_source d = r) (concat (exported s)))"

text \<open>Proper nesting of the open-span list (oldest span first): each span's parent is
  the span opened just before it.\<close>

fun nested :: "(nat \<Rightarrow> span) \<Rightarrow> nat list \<Rightarrow> bool" where
  "nested h [] = True"
| "nested h [r] = True"
| "nested h (p # r # rs) = (parent_span (h r) = ParentSpan p \<and> nested h (r # rs))"

text \<open>The subtree of \<open>r\<close> can be walked within the recursion limit.\<close>

definition walkable :: "(nat \<Rightarrow> span) \<Rightarrow> nat \<Rightarrow> bool" where
  "walkable h r = (case iter_span recursion_limit h r of Inl e \<Rightarrow> False | Inr xs \<Rightarrow> True)"

section \<open>Actions that may raise\<close>

type_synonym 'a action = "state \<Rightarrow> (exn + 'a) \<times> state"

definition returnE :: "'a \<Rightarrow> 'a action" where
  "returnE x s = (Inr x, s)"

definition raiseE :: "exn \<Rightarrow> 'a action" where
  "raiseE e s = (Inl e, s)"

definition bindE :: "'a action \<Rightarrow> ('a \<Rightarrow> 'b action) \<Rightarrow> 'b action" where
  "bindE m f s = (case m s of (Inl e, s1) \<Rightarrow> (Inl e, s1) | (Inr x, s1) \<Rightarrow> f x s1)"

definition thenE :: "'a action \<Rightarrow> 'b action \<Rightarrow> 'b action" where
  "thenE m n = bindE m (\<lambda>x. n)"

text \<open>\<open>try: m  except Exception as e: h e\<close>: the handler takes only exceptions whose
  class derives from \<open>Exception\<close>; any other propagates from the \<open>try\<close> untouched.\<close>

definition try_except_Exception :: "'a action \<Rightarrow> (exn \<Rightarrow> 'a action) \<Rightarrow> 'a action" where
  "try_except_Exception m h s =
     (case m s of
        (Inl e, s1) \<Rightarrow> (if is_Exception e then h e s1 else (Inl e, s1))
      | (Inr x, s1) \<Rightarrow> (Inr x, s1))"

subsection \<open>Method calls on the tracer found in the context store\<close>

text \<open>What \<open>start_span\<close> hands back: a span object of the heap, or the no-op
  tracer's \<open>BlankSpan\<close>, whose setters do nothing.\<close>

datatype span_handle = SpanObj nat | BlankSpan

definition tracer_start_span :: "tracer \<Rightarrow> string \<Rightarrow> state \<Rightarrow> span_handle \<times> state" where
  "tracer_start_span tr nm s =
     (case tr of
        ContextTracer \<Rightarrow> (case start_span nm s of (r, s1) \<Rightarrow> (SpanObj r, s1))
      | NoopTracer \<Rightarrow> (BlankSpan, s))"

definition tracer_add_attribute :: "tracer \<Rightarrow> string \<Rightarrow> pyval \<Rightarrow> unit action" where
  "tracer_add_attribute tr k v =
     (case tr of
        ContextTracer \<Rightarrow> add_attribute_to_current_span k v
      | NoopTracer \<Rightarrow> returnE ())"

definition tracer_end_span :: "tracer \<Rightarrow> unit action" where
  "tracer_end_span tr =
     (case tr of
        ContextTracer \<Rightarrow> bindE end_span (\<lambda>ended. returnE ())
      | NoopTracer \<Rightarrow> returnE ())"

definition set_span_name :: "span_handle \<Rightarrow> string \<Rightarrow> state \<Rightarrow> state" where
  "set_span_name h nm s = (case h of SpanObj r \<Rightarrow> Span_set_name r nm s | BlankSpan \<Rightarrow> s)"

section \<open>AsyncSpan, the scoped-span helper\<close>

text \<open>
  The first constructor parameter is any Python object. A callable is given by its
  \<open>__name__\<close>; what calling it does is looked up in a table of the model
  (\<open>call_fn\<close> below). \<open>name\<close> is \<open>None\<close> or a string.
\<close>

datatype pyobj = Value pyval | Callable string

record async_span =
  as_name :: "string option"
  as_function :: "string option"

definition AsyncSpan :: "pyobj \<Rightarrow> string option \<Rightarrow> exn + async_span" where
  "AsyncSpan fn nm =
     (case fn of
        Value (PStr str) \<Rightarrow> Inr \<lparr>as_name = Some str, as_function = None\<rparr>
      | Callable f \<Rightarrow> Inr \<lparr>as_name = nm, as_function = Some f\<rparr>
      | _ \<Rightarrow> Inl (TypeError ''First parameter must be either a span name or a callable function''))"






text \<open>
  The statement \<open>with cm: block\<close> looks up \<open>__enter__\<close> and \<open>__exit__\<close> on the class
  of \<open>cm\<close> before anything of the block runs, and raises \<open>AttributeError\<close> when one
  is missing. \<open>AsyncSpan\<close> defines the four methods below and no other.
\<close>

definition AsyncSpan_methods :: "string list" where
  "AsyncSpan_methods = [''__init__'', ''__call__'', ''__aenter__'', ''__aexit__'']"

definition with_stmt :: "string list \<Rightarrow> 'a action \<Rightarrow> 'a action" where
  "with_stmt methods block s =
     (if ''__enter__'' \<in> set methods \<and> ''__exit__'' \<in> set methods then block s
      else (Inl (AttributeError ''__enter__''), s))"

text \<open>\<open>__call__\<close>: with a function set, run it under \<open>with self\<close>; otherwise take
  the first argument as the function to decorate and return \<open>self\<close>.\<close>

datatype call_result = Returned pyval | ReturnedSelf async_span

definition AsyncSpan_call ::
  "(string \<Rightarrow> pyobj list \<Rightarrow> pyval action) \<Rightarrow> async_span \<Rightarrow> pyobj list \<Rightarrow> call_result action" where
  "AsyncSpan_call call_fn self args s =
     (case as_function self of
        Some f \<Rightarrow>
          with_stmt AsyncSpan_methods
            (bindE (call_fn f args) (\<lambda>v. returnE (Returned v))) s
      | None \<Rightarrow>
          (case args of
             Callable g # rest \<Rightarrow> (Inr (ReturnedSelf (self\<lparr>as_function := Some g\<rparr>)), s)
           | _ \<Rightarrow>
               (Inl (TypeError
                  ''Decorated function not yet set. Must be called with a callable function''), s)))"

section \<open>The aioredis wrapper\<close>

text \<open>
  \<open>str\<close> of a value, for \<open>format\<close>. Strings print as themselves, integers in
  decimal; the \<open>repr\<close> of bytes is given without escapes.
\<close>

fun dec_nat :: "nat \<Rightarrow> string" where
  "dec_nat n =
     (if n < 10 then [char_of (48 + n)]
      else dec_nat (n div 10) @ [char_of (48 + n mod 10)])"

definition py_str :: "pyval \<Rightarrow> string" where
  "py_str v =
     (case v of
        PNone \<Rightarrow> ''None''
      | PBool b \<Rightarrow> (if b then ''True'' else ''False'')
      | PInt i \<Rightarrow> (if i < 0 then ''-'' @ dec_nat (nat (- i)) else dec_nat (nat i))
      | PStr str \<Rightarrow> str
      | PBytes b \<Rightarrow> ''b'' @ [CHR 0x27] @ b @ [CHR 0x27])"

text \<open>The connection object: \<open>instance.db\<close>, \<open>instance.address\<close> (host and port)
  and \<open>instance.encoding\<close>.\<close>

record redis_connection =
  db :: int
  address :: "pyval \<times> pyval"
  encoding :: "string option"

text \<open>The part of \<open>wrap_execute\<close> between the tracer check and the \<open>try\<close>: start the
  span, name it after the command, annotate the connection and the key.\<close>

definition wrap_execute_annotate ::
  "tracer \<Rightarrow> redis_connection \<Rightarrow> pyval \<Rightarrow> pyval list \<Rightarrow> unit action" where
  "wrap_execute_annotate tr inst command args s =
     (case tracer_start_span tr ''span'' s of (h, s1) \<Rightarrow>
        thenE (tracer_add_attribute tr ''redis.db'' (PInt (db inst)))
          (thenE (tracer_add_attribute tr ''redis.address'' (fst (address inst)))
             (thenE (tracer_add_attribute tr ''redis.port'' (snd (address inst)))
                (thenE
                   (tracer_add_attribute tr ''redis.encoding''
                      (PStr (case encoding inst of None \<Rightarrow> ''None'' | Some enc \<Rightarrow> enc)))
                   (if length args > 1 then tracer_add_attribute tr ''redis.key'' (args ! 1)
                    else returnE ()))))
          (set_span_name h (''[aioredis] '' @ py_str command) s1))"

text \<open>The \<open>try\<close> block and its handler.\<close>

definition wrap_execute_try ::
  "tracer \<Rightarrow> pyval action \<Rightarrow> pyval action" where
  "wrap_execute_try tr wrapped_call =
     try_except_Exception
       (bindE wrapped_call (\<lambda>result.
          thenE
            (tracer_add_attribute tr ''redis.resposne.size''
               (case result of PBytes b \<Rightarrow> PInt (int (length b)) | _ \<Rightarrow> PInt 0))
            (thenE (tracer_end_span tr) (returnE result))))
       (\<lambda>e.
          thenE (tracer_add_attribute tr ''error'' (PBool True))
            (thenE (tracer_add_attribute tr ''error.message'' (PStr (exn_str e)))
               (thenE (tracer_end_span tr) (raiseE e))))"

text \<open>
  \<open>wrap_execute(wrapped, instance, args, kwargs)\<close>. \<open>command = args[0]\<close> is the first
  statement, before the tracer is looked at: on an empty \<open>args\<close> it raises
  \<open>IndexError\<close>.
\<close>

definition wrap_execute ::
  "(pyval list \<Rightarrow> (string \<times> pyval) list \<Rightarrow> pyval action) \<Rightarrow> redis_connection \<Rightarrow>
     pyval list \<Rightarrow> (string \<times> pyval) list \<Rightarrow> pyval action" where
  "wrap_execute wrapped inst args kwargs s =
     (case args of
        [] \<Rightarrow> (Inl (IndexError ''tuple index out of range''), s)
      | command # others \<Rightarrow>
          (case get_opencensus_tracer s of
             None \<Rightarrow> wrapped args kwargs s
           | Some tr \<Rightarrow>
               thenE (wrap_execute_annotate tr inst command args)
                 (wrap_execute_try tr (wrapped args kwargs)) s))"

section \<open>The Sanic middleware, request phase\<close>

text \<open>What \<open>request.app.router.get(request)\<close> does: a route (its uri, \<open>route[3]\<close>),
  \<open>NotFound\<close>, or another exception.\<close>

datatype route_lookup = Route string | NotFound | RouteRaises exn

record request =
  req_scheme :: string
  req_url :: string
  req_method :: string
  req_path :: string
  req_host :: string
  req_ip :: string
  req_headers :: "(string \<times> string) list"
  req_route :: route_lookup
  req_tracer :: "tracer option"

text \<open>The middleware after \<open>init_app\<close>: the deny lists, the service name, the
  propagator's \<open>from_headers\<close> and the sampler's \<open>should_sample\<close>.\<close>

record middleware =
  blacklist_paths :: "string list option"
  blacklist_methods :: "string list option"
  service_name :: string
  from_headers :: "(string \<times> string) list \<Rightarrow> span_context"
  should_sample :: "string \<Rightarrow> bool"

text \<open>
  The library's \<open>utils.disable_tracing_url\<close>: drop the scheme, take what follows the
  first slash (\<open>IndexError\<close> when there is none), and test whether it starts with one
  of the deny-listed paths (the library's default list when none is configured).
\<close>

definition strip_scheme :: "string \<Rightarrow> string" where
  "strip_scheme u =
     (if take 7 u = ''http://'' then drop 7 u
      else if take 8 u = ''https://'' then drop 8 u
      else if take 6 u = ''ftp://'' then drop 6 u
      else u)"

definition disable_tracing_url :: "string \<Rightarrow> string list option \<Rightarrow> exn + bool" where
  "disable_tracing_url u paths =
     (let deny = (case paths of None \<Rightarrow> [''_ah/health''] | Some ps \<Rightarrow> ps);
          after = dropWhile (\<lambda>c. c \<noteq> CHR ''/'') (strip_scheme u)
      in case after of
           [] \<Rightarrow> Inl (IndexError ''list index out of range'')
         | slash # url_path \<Rightarrow> Inr (list_ex (\<lambda>p. take (length p) url_path = p) deny))"

text \<open>\<open>ContextTracer(span_context=..., exporter=self.exporter)\<close> for the request: the
  task's tracer is a new one, with an empty open-span list.\<close>

definition ContextTracer_init :: "span_context \<Rightarrow> state \<Rightarrow> state" where
  "ContextTracer_init sc s = s\<lparr>spans_list := [], span_context := sc\<rparr>"

definition choose_tracer :: "middleware \<Rightarrow> span_context \<Rightarrow> state \<Rightarrow> tracer \<times> state" where
  "choose_tracer self sc s =
     (if from_header sc \<and> enabled sc then (ContextTracer, ContextTracer_init sc s)
      else if should_sample self (trace_id sc) then (ContextTracer, ContextTracer_init sc s)
      else (NoopTracer, s))"

definition header_attributes :: "tracer \<Rightarrow> (string \<times> string) list \<Rightarrow> string list \<Rightarrow> unit action" where
  "header_attributes tr hdrs names =
     foldr (\<lambda>header rest.
              thenE (case map_of hdrs header of
                       Some v \<Rightarrow> tracer_add_attribute tr (''http.headers.'' @ header) (PStr v)
                     | None \<Rightarrow> returnE ())
                    rest)
           names (returnE ())"

text \<open>
  \<open>do_trace_request\<close>. \<open>disable_url\<close> stands for the library function the method
  calls (\<open>disable_tracing_url\<close> above). The result is what the method raises or
  returns, the request (its \<open>tracer\<close> entry) and the state.
\<close>

definition do_trace_request ::
  "(string \<Rightarrow> string list option \<Rightarrow> exn + bool) \<Rightarrow> middleware \<Rightarrow> request \<Rightarrow> state \<Rightarrow>
     (exn + unit) \<times> request \<times> state" where
  "do_trace_request disable_url self request s =
     (if req_scheme request \<in> set [''ws'', ''wss''] then (Inr (), request, s)
      else
        (case disable_url (req_url request) (blacklist_paths self) of
           Inl e \<Rightarrow> (Inl e, request, s)
         | Inr True \<Rightarrow> (Inr (), request, s)
         | Inr False \<Rightarrow>
             (if (case blacklist_methods self of
                    None \<Rightarrow> False
                  | Some ms \<Rightarrow> ms \<noteq> [] \<and> req_method request \<in> set ms)
              then (Inr (), request, s)
              else
                (case choose_tracer self (from_headers self (req_headers request)) s of
                   (tr, s1) \<Rightarrow>
                (case tracer_start_span tr ''span'' s1 of
                   (h, s2) \<Rightarrow>
                (let plain = ''['' @ service_name self @ ''] '' @ req_method request @ '' '' @
                       req_path request;
                     s3 = set_span_name h plain s2
                 in case req_route request of
                      RouteRaises e \<Rightarrow> (Inl e, request, s3)
                    | lookup \<Rightarrow>
                        (let routing_url =
                               (case lookup of Route uri \<Rightarrow> uri | _ \<Rightarrow> req_url request);
                             s4 = (case lookup of
                                     Route uri \<Rightarrow>
                                       set_span_name h
                                         (''['' @ service_name self @ ''] '' @ req_method request @
                                            '' '' @ uri) s3
                                   | _ \<Rightarrow> s3)
                         in case
                              thenE (tracer_add_attribute tr ''http.method'' (PStr (req_method request)))
                                (thenE (tracer_add_attribute tr ''http.host'' (PStr (req_host request)))
                                   (thenE (tracer_add_attribute tr ''http.scheme'' (PStr (req_scheme request)))
                                      (thenE (tracer_add_attribute tr ''http.url'' (PStr routing_url))
                                         (thenE (tracer_add_attribute tr ''http.client.ip'' (PStr (req_ip request)))
                                            (header_attributes tr (req_headers request)
                                               [''user-agent'', ''x-forwarded-for'', ''x-real-ip''])))))
                                s4
                            of
                              (Inl e, s5) \<Rightarrow> (Inl e, request, s5)
                            | (Inr u, s5) \<Rightarrow>
                                (Inr (), request\<lparr>req_tracer := Some tr\<rparr>,
                                 set_opencensus_tracer (Some tr) s5))))))))"

section \<open>Invariants and example inputs\<close>

text \<open>The oldest open span hangs off no other span (its parent is the
  \<open>NullContextManager\<close> of the inbound span id).\<close>

definition bottom_rooted :: "(nat \<Rightarrow> span) \<Rightarrow> nat list \<Rightarrow> bool" where
  "bottom_rooted h rs =
     (case rs of
        [] \<Rightarrow> True
      | b # rest \<Rightarrow> (case parent_span (h b) of ParentSpan q \<Rightarrow> False | _ \<Rightarrow> True))"

text \<open>What holds of the tracer between calls: the open spans are distinct,
  allocated, childless and properly nested, and the store's current span is the top
  of the list (none when the list is empty).\<close>

definition tracer_inv :: "state \<Rightarrow> bool" where
  "tracer_inv s =
     (distinct (spans_list s) \<and> nested (heap s) (spans_list s) \<and>
      bottom_rooted (heap s) (spans_list s) \<and>
      list_all (\<lambda>r. r < next_ref s \<and> children (heap s r) = []) (spans_list s) \<and>
      current_span s = (if spans_list s = [] then None else Some (last (spans_list s))))"

text \<open>What the loop of \<open>finish\<close> keeps.\<close>

definition finish_pre :: "state \<Rightarrow> bool" where
  "finish_pre s =
     (distinct (spans_list s) \<and> nested (heap s) (spans_list s) \<and>
      list_all (walkable (heap s)) (spans_list s) \<and>
      (spans_list s = [] \<or> current_span s = None \<or>
       current_span s = Some (last (spans_list s))))"

text \<open>Concrete inputs on which the theorems below are evaluated.\<close>

definition example_context :: span_context where
  "example_context =
     \<lparr>trace_id = ''4bf92f3577b34da6'', sc_span_id = Some ''00f067aa0ba902b7'',
      from_header = True, enabled = True\<rparr>"

definition example_ids :: "nat \<Rightarrow> string" where
  "example_ids n = ''span-'' @ dec_nat n"

definition example_tracer :: state where
  "example_tracer = new_tracer example_context 0 example_ids"

definition two_open :: state where
  "two_open = snd (start_span ''inner'' (snd (start_span ''outer'' example_tracer)))"

definition example_connection :: redis_connection where
  "example_connection = \<lparr>db = 0, address = (PStr ''localhost'', PInt 6379), encoding = None\<rparr>"

definition wrapped_pong :: "pyval list \<Rightarrow> (string \<times> pyval) list \<Rightarrow> pyval action" where
  "wrapped_pong args kwargs s = (Inr (PStr ''PONG''), s)"

definition example_middleware :: middleware where
  "example_middleware =
     \<lparr>blacklist_paths = Some [''health''], blacklist_methods = None, service_name = ''sanic'',
      from_headers = (\<lambda>hdrs. example_context), should_sample = (\<lambda>tid. True)\<rparr>"

definition health_request :: request where
  "health_request =
     \<lparr>req_scheme = ''http'', req_url = ''http://localhost:8000/health'', req_method = ''GET'',
      req_path = ''/health'', req_host = ''localhost:8000'', req_ip = ''127.0.0.1'',
      req_headers = [], req_route = Route ''/health'', req_tracer = None\<rparr>"

text \<open>Every span object allocated so far has been exported once if it has left the
  open-span list, and not at all if it is still in it; a span that has left the list
  has its end time set.\<close>

definition export_inv :: "state \<Rightarrow> bool" where
  "export_inv s =
     ((\<forall>r. export_count r s = (if r < next_ref s \<and> r \<notin> set (spans_list s) then 1 else 0)) \<and>
      (\<forall>r. r < next_ref s \<and> r \<notin> set (spans_list s) \<longrightarrow> end_time (heap s r) \<noteq> None))"


















definition example_calls :: "call list" where
  "example_calls = [StartSpan ''a'', StartSpan ''b'', EndSpan, StartSpan ''c'']"

lemmas eval_defs = new_tracer_def start_span_def end_span_def Let_def Span_def Span_start_def
  Span_finish_def Span_add_attribute_def Span_set_name_def set_current_span_def
  get_current_span_def current_span_def get_opencensus_tracer_def set_opencensus_tracer_def
  get_span_datas_def exporter_export_def span_data_of_def example_tracer_def two_open_def

section \<open>Facts about the model\<close>

subsection \<open>Walking a span's subtree\<close>

lemma iter_span_Suc_leaf:
  "children (h r) = [] \<Longrightarrow> iter_span (Suc n) h r = Inr [r]"
  by simp

lemma iter_span_leaf:
  "children (h r) = [] \<Longrightarrow> iter_span recursion_limit h r = Inr [r]"
proof -
  assume c: "children (h r) = []"
  have "recursion_limit = Suc 999" unfolding recursion_limit_def by simp
  then show ?thesis using c iter_span_Suc_leaf [of h r 999] by (simp only:)
qed

lemma iter_span_children_cong:
  "(\<And>x. children (h' x) = children (h x)) \<Longrightarrow> iter_span n h' r = iter_span n h r"
proof (induction n arbitrary: r)
  case 0
  show ?case by simp
next
  case (Suc n)
  have "iter_span n h' = iter_span n h" by (rule ext) (rule Suc.IH [OF Suc.prems])
  then show ?case by (simp add: Suc.prems)
qed


lemma walkable_leaf: "children (h r) = [] \<Longrightarrow> walkable h r"
  by (simp add: walkable_def iter_span_leaf)

subsection \<open>Nesting\<close>

lemma nested_snoc:
  "nested h (rs @ [r]) = (nested h rs \<and> (rs = [] \<or> parent_span (h r) = ParentSpan (last rs)))"
  by (induction h rs rule: nested.induct) auto

lemma nested_cong:
  "(\<And>x. x \<in> set rs \<Longrightarrow> parent_span (h' x) = parent_span (h x)) \<Longrightarrow> nested h' rs = nested h rs"
  by (induction h rs rule: nested.induct) auto

lemma bottom_rooted_cong:
  "(\<And>x. x \<in> set rs \<Longrightarrow> parent_span (h' x) = parent_span (h x)) \<Longrightarrow>
     bottom_rooted h' rs = bottom_rooted h rs"
  by (cases rs) (simp_all add: bottom_rooted_def)

lemma bottom_rooted_snoc:
  "rs \<noteq> [] \<Longrightarrow> bottom_rooted h (rs @ [r]) = bottom_rooted h rs"
  by (cases rs) (simp_all add: bottom_rooted_def)

subsection \<open>start_span and end_span keep the invariant\<close>

lemma new_tracer_inv: "tracer_inv (new_tracer sc now ids)"
  by (simp add: tracer_inv_def new_tracer_def bottom_rooted_def current_span_def
      get_current_span_def)

lemma start_span_fields:
  "fst (start_span nm s) = next_ref s"
  "spans_list (snd (start_span nm s)) = spans_list s @ [next_ref s]"
  "next_ref (snd (start_span nm s)) = Suc (next_ref s)"
  "exported (snd (start_span nm s)) = exported s"
  "current_span (snd (start_span nm s)) = Some (next_ref s)"
  "task_tracer (snd (start_span nm s)) = task_tracer s"
  "x \<noteq> next_ref s \<Longrightarrow> heap (snd (start_span nm s)) x = heap s x"
  "children (heap (snd (start_span nm s)) (next_ref s)) = []"
  "parent_span (heap (snd (start_span nm s)) (next_ref s)) =
     (case current_span s of
        None \<Rightarrow> NullContextManager (sc_span_id (span_context s))
      | Some p \<Rightarrow> ParentSpan p)"
  by (simp_all add: start_span_def Let_def Span_start_def set_current_span_def
      current_span_def get_current_span_def Span_def)

lemma start_span_inv:
  assumes "tracer_inv s"
  shows "tracer_inv (snd (start_span nm s))"
proof -
  let ?s' = "snd (start_span nm s)"
  let ?r = "next_ref s"
  from assms have d: "distinct (spans_list s)" and n: "nested (heap s) (spans_list s)"
    and b: "bottom_rooted (heap s) (spans_list s)"
    and a: "list_all (\<lambda>r. r < next_ref s \<and> children (heap s r) = []) (spans_list s)"
    and c: "current_span s = (if spans_list s = [] then None else Some (last (spans_list s)))"
    by (simp_all add: tracer_inv_def)
  from a have lt: "\<And>x. x \<in> set (spans_list s) \<Longrightarrow> x < ?r \<and> children (heap s x) = []"
    by (simp add: list_all_iff)
  then have fresh: "?r \<notin> set (spans_list s)" by auto
  have same: "\<And>x. x \<in> set (spans_list s) \<Longrightarrow> heap ?s' x = heap s x"
    using fresh by (intro start_span_fields(7)) auto
  have n': "nested (heap ?s') (spans_list s) = nested (heap s) (spans_list s)"
    by (rule nested_cong) (simp add: same)
  have b': "bottom_rooted (heap ?s') (spans_list s) = bottom_rooted (heap s) (spans_list s)"
    by (rule bottom_rooted_cong) (simp add: same)
  have 1: "distinct (spans_list ?s')" using d fresh by (simp add: start_span_fields)
  have 2: "nested (heap ?s') (spans_list ?s')"
    using n n' c by (simp add: start_span_fields nested_snoc)
  have 3: "bottom_rooted (heap ?s') (spans_list ?s')"
  proof (cases "spans_list s = []")
    case True
    then show ?thesis using c by (simp add: start_span_fields bottom_rooted_def)
  next
    case False
    then show ?thesis using b b' by (simp add: start_span_fields bottom_rooted_snoc)
  qed
  have 4: "list_all (\<lambda>r. r < next_ref ?s' \<and> children (heap ?s' r) = []) (spans_list ?s')"
    using lt same by (auto simp add: start_span_fields list_all_iff less_Suc_eq)
  have 5: "current_span ?s' = (if spans_list ?s' = [] then None else Some (last (spans_list ?s')))"
    by (simp add: start_span_fields)
  from 1 2 3 4 5 show ?thesis by (simp add: tracer_inv_def)
qed

lemma end_span_last:
  assumes l: "spans_list s = rs @ [c]" and d: "c \<notin> set rs"
    and cur: "current_span s = None \<or> current_span s = Some c"
    and w: "iter_span recursion_limit (heap s) c = Inr tree"
  shows "fst (end_span s) = Inr (Some c)"
    and "spans_list (snd (end_span s)) = rs"
    and "next_ref (snd (end_span s)) = next_ref s"
    and "heap (snd (end_span s)) = (heap s)(c := (heap s c)\<lparr>end_time := Some (clock s)\<rparr>)"
    and "map (map sd_source) (exported (snd (end_span s))) = map (map sd_source) (exported s) @ [tree]"
    and "length (exported (snd (end_span s))) = Suc (length (exported s))"
    and "current_span (snd (end_span s)) =
           (case parent_span (heap s c) of ParentSpan q \<Rightarrow> Some q | _ \<Rightarrow> None)"
    and "task_tracer (snd (end_span s)) = task_tracer s"
    and "clock (snd (end_span s)) = clock s"
proof -
  let ?h = "(heap s)(c := (heap s c)\<lparr>end_time := Some (clock s)\<rparr>)"
  have w': "iter_span recursion_limit ?h c = Inr tree"
    using w iter_span_children_cong [of ?h "heap s" recursion_limit c] by simp
  have sel: "task_current_span s = None \<or> task_current_span s = Some c"
    using cur by (simp add: current_span_def get_current_span_def)
  note defs = end_span_def Let_def Span_finish_def set_current_span_def get_span_datas_def
    exporter_export_def current_span_def get_current_span_def span_data_of_def
  show "fst (end_span s) = Inr (Some c)"
    using l d w' sel by (auto simp add: defs remove1_append split: parent.splits)
  show "spans_list (snd (end_span s)) = rs"
    using l d w' sel by (auto simp add: defs remove1_append split: parent.splits)
  show "next_ref (snd (end_span s)) = next_ref s"
    using l d w' sel by (auto simp add: defs remove1_append split: parent.splits)
  show "heap (snd (end_span s)) = ?h"
    using l d w' sel by (auto simp add: defs remove1_append split: parent.splits)
  show "map (map sd_source) (exported (snd (end_span s))) = map (map sd_source) (exported s) @ [tree]"
    using l d w' sel by (auto simp add: defs remove1_append comp_def split: parent.splits)
  show "length (exported (snd (end_span s))) = Suc (length (exported s))"
    using l d w' sel by (auto simp add: defs remove1_append split: parent.splits)
  show "current_span (snd (end_span s)) =
           (case parent_span (heap s c) of ParentSpan q \<Rightarrow> Some q | _ \<Rightarrow> None)"
    using l d w' sel by (auto simp add: defs remove1_append split: parent.splits)
  show "task_tracer (snd (end_span s)) = task_tracer s"
    using l d w' sel by (auto simp add: defs remove1_append split: parent.splits)
  show "clock (snd (end_span s)) = clock s"
    using l d w' sel by (auto simp add: defs remove1_append split: parent.splits)
qed

lemma count_sources:
  "length (filter (\<lambda>d. sd_source d = r) (concat bs)) =
     length (filter (\<lambda>x. x = r) (concat (map (map sd_source) bs)))"
  by (induction bs) (simp_all add: filter_map comp_def)

lemma export_count_sources:
  "export_count r s = length (filter (\<lambda>x. x = r) (concat (map (map sd_source) (exported s))))"
  by (simp add: export_count_def count_sources)

lemma end_span_noop:
  assumes "spans_list s = []" and "current_span s = None"
  shows "end_span s =
     (Inr None, s\<lparr>warnings := warnings s @ [''No active span, cannot do end_span.'']\<rparr>)"
  using assms by (simp add: end_span_def current_span_def get_current_span_def)

lemma tracer_inv_top:
  assumes "tracer_inv s" and "spans_list s = rs @ [c]"
  shows "c \<notin> set rs" and "current_span s = Some c"
    and "iter_span recursion_limit (heap s) c = Inr [c]"
    and "parent_span (heap s c) = ParentSpan q \<Longrightarrow> rs \<noteq> [] \<and> q = last rs"
    and "rs \<noteq> [] \<Longrightarrow> parent_span (heap s c) = ParentSpan (last rs)"
proof -
  from assms show "c \<notin> set rs" by (simp add: tracer_inv_def)
  from assms show "current_span s = Some c" by (simp add: tracer_inv_def)
  from assms have "children (heap s c) = []" by (simp add: tracer_inv_def)
  then show "iter_span recursion_limit (heap s) c = Inr [c]" by (rule iter_span_leaf)
  from assms have n: "nested (heap s) (rs @ [c])" and b: "bottom_rooted (heap s) (rs @ [c])"
    by (simp_all add: tracer_inv_def)
  show "rs \<noteq> [] \<Longrightarrow> parent_span (heap s c) = ParentSpan (last rs)"
    using n by (simp add: nested_snoc)
  show "parent_span (heap s c) = ParentSpan q \<Longrightarrow> rs \<noteq> [] \<and> q = last rs"
  proof (cases "rs = []")
    case True
    assume "parent_span (heap s c) = ParentSpan q"
    with True b show ?thesis by (simp add: bottom_rooted_def)
  next
    case False
    assume "parent_span (heap s c) = ParentSpan q"
    with False n show ?thesis by (simp add: nested_snoc)
  qed
qed

lemma end_span_inv:
  assumes inv: "tracer_inv s"
  shows "tracer_inv (snd (end_span s))"
proof (cases "spans_list s" rule: rev_cases)
  case Nil
  with inv have "current_span s = None" by (simp add: tracer_inv_def)
  with Nil inv show ?thesis
    by (simp add: end_span_noop tracer_inv_def current_span_def get_current_span_def
        bottom_rooted_def)
next
  case (snoc rs c)
  note top = tracer_inv_top [OF inv snoc]
  note es = end_span_last [OF snoc top(1) disjI2 [OF top(2)] top(3)]
  let ?s' = "snd (end_span s)"
  from inv snoc have d: "distinct rs" and n: "nested (heap s) rs"
    and a: "list_all (\<lambda>r. r < next_ref s \<and> children (heap s r) = []) rs"
    by (simp_all add: tracer_inv_def nested_snoc)
  from inv snoc have b: "bottom_rooted (heap s) rs"
    by (cases rs) (simp_all add: tracer_inv_def bottom_rooted_def)
  have same: "\<And>x. x \<in> set rs \<Longrightarrow> heap ?s' x = heap s x"
    using top(1) by (auto simp add: es(4))
  have 1: "distinct (spans_list ?s')" using d by (simp add: es)
  have 2: "nested (heap ?s') (spans_list ?s')"
    using n nested_cong [of rs "heap ?s'" "heap s"] same by (simp add: es(2))
  have 3: "bottom_rooted (heap ?s') (spans_list ?s')"
    using b bottom_rooted_cong [of rs "heap ?s'" "heap s"] same by (simp add: es(2))
  have 4: "list_all (\<lambda>r. r < next_ref ?s' \<and> children (heap ?s' r) = []) (spans_list ?s')"
    using a same by (simp add: es(2,3) list_all_iff)
  have 5: "current_span ?s' = (if spans_list ?s' = [] then None else Some (last (spans_list ?s')))"
  proof (cases "rs = []")
    case True
    then show ?thesis using top(4) by (auto simp add: es(2,7) split: parent.splits)
  next
    case False
    then show ?thesis using top(5) by (simp add: es(2,7))
  qed
  from 1 2 3 4 5 show ?thesis by (simp add: tracer_inv_def)
qed

lemma end_span_returns:
  assumes inv: "tracer_inv s"
  shows "fst (end_span s) = Inr (if spans_list s = [] then None else Some (last (spans_list s)))"
proof (cases "spans_list s" rule: rev_cases)
  case Nil
  with inv have "current_span s = None" by (simp add: tracer_inv_def)
  with Nil show ?thesis by (simp add: end_span_noop)
next
  case (snoc rs c)
  note top = tracer_inv_top [OF inv snoc]
  show ?thesis
    using end_span_last(1) [OF snoc top(1) disjI2 [OF top(2)] top(3)] snoc by simp
qed

lemma run_inv:
  "tracer_inv s \<Longrightarrow> \<exists>s'. run calls s = Inr s' \<and> tracer_inv s'"
proof (induction calls arbitrary: s)
  case Nil
  then show ?case by simp
next
  case (Cons c calls)
  show ?case
  proof (cases c)
    case (StartSpan nm)
    then show ?thesis using Cons.IH [OF start_span_inv [OF Cons.prems]] by simp
  next
    case EndSpan
    obtain x s1 where e: "end_span s = (x, s1)" by (cases "end_span s")
    with end_span_returns [OF Cons.prems] obtain y where "x = Inr y" by simp
    moreover from e end_span_inv [OF Cons.prems] have "tracer_inv s1" by simp
    ultimately show ?thesis using EndSpan e Cons.IH [of s1] by simp
  qed
qed

subsection \<open>The loop of finish\<close>

lemma finish_rule:
  assumes step: "\<And>s rs c. P s \<Longrightarrow> spans_list s = rs @ [c] \<Longrightarrow>
      (\<exists>x. fst (end_span s) = Inr x) \<and> spans_list (snd (end_span s)) = rs \<and> P (snd (end_span s))"
    and p: "P s"
  shows "\<exists>s'. finish s = Some (Inr (), s') \<and> spans_list s' = [] \<and> P s'"
  using p
proof (induction "length (spans_list s)" arbitrary: s)
  case 0
  then have "finish s = Some (Inr (), s)" by (subst finish.simps) simp
  with 0 show ?case by simp
next
  case (Suc n)
  then obtain rs c where l: "spans_list s = rs @ [c]"
    by (cases "spans_list s" rule: rev_cases) auto
  from step [OF Suc.prems l] obtain x where
    r: "fst (end_span s) = Inr x" and l': "spans_list (snd (end_span s)) = rs"
    and p': "P (snd (end_span s))" by blast
  from l l' Suc.hyps(2) have "n = length (spans_list (snd (end_span s)))" by simp
  from Suc.hyps(1) [OF this p'] obtain s' where
    f: "finish (snd (end_span s)) = Some (Inr (), s')" and e: "spans_list s' = []" and "P s'"
    by blast
  have "finish s = finish (snd (end_span s))"
    using l r by (subst finish.simps) (simp add: split_beta)
  with f e \<open>P s'\<close> show ?case by simp
qed


text \<open>The states the tracer's own calls produce satisfy what \<open>finish\<close> needs: spans
  made by \<open>start_span\<close> have no children, so their subtrees can be walked.\<close>

lemma tracer_inv_finish_pre: "tracer_inv s \<Longrightarrow> finish_pre s"
  by (auto simp add: tracer_inv_def finish_pre_def list_all_iff walkable_leaf)

lemma end_span_top:
  assumes inv: "tracer_inv s" and l: "spans_list s = rs @ [c]"
  shows "fst (end_span s) = Inr (Some c)"
    and "spans_list (snd (end_span s)) = rs"
    and "next_ref (snd (end_span s)) = next_ref s"
    and "heap (snd (end_span s)) = (heap s)(c := (heap s c)\<lparr>end_time := Some (clock s)\<rparr>)"
    and "map (map sd_source) (exported (snd (end_span s))) = map (map sd_source) (exported s) @ [[c]]"
    and "c \<notin> set rs" and "c < next_ref s"
proof -
  note top = tracer_inv_top [OF inv l]
  note es = end_span_last [OF l top(1) disjI2 [OF top(2)] top(3)]
  show "fst (end_span s) = Inr (Some c)" by (rule es(1))
  show "spans_list (snd (end_span s)) = rs" by (rule es(2))
  show "next_ref (snd (end_span s)) = next_ref s" by (rule es(3))
  show "heap (snd (end_span s)) = (heap s)(c := (heap s c)\<lparr>end_time := Some (clock s)\<rparr>)"
    by (rule es(4))
  show "map (map sd_source) (exported (snd (end_span s))) = map (map sd_source) (exported s) @ [[c]]"
    by (rule es(5))
  show "c \<notin> set rs" by (rule top(1))
  from inv l show "c < next_ref s" by (simp add: tracer_inv_def)
qed

subsection \<open>Nested starts and ends\<close>

lemma upt_shift: "[n ..< n + Suc k] = n # [Suc n ..< Suc n + k]"
  by (subst upt_rec) simp

lemma start_spans_inv:
  "tracer_inv s \<Longrightarrow>
     fst (start_spans nms s) = [next_ref s ..< next_ref s + length nms] \<and>
     spans_list (snd (start_spans nms s)) = spans_list s @ [next_ref s ..< next_ref s + length nms] \<and>
     tracer_inv (snd (start_spans nms s))"
proof (induction nms arbitrary: s)
  case Nil
  then show ?case by simp
next
  case (Cons nm nms)
  let ?s1 = "snd (start_span nm s)"
  from Cons.IH [OF start_span_inv [OF Cons.prems], of nm]
  have ih: "fst (start_spans nms ?s1) = [Suc (next_ref s) ..< Suc (next_ref s) + length nms]"
    "spans_list (snd (start_spans nms ?s1)) =
       (spans_list s @ [next_ref s]) @ [Suc (next_ref s) ..< Suc (next_ref s) + length nms]"
    "tracer_inv (snd (start_spans nms ?s1))"
    by (simp_all add: start_span_fields)
  have u: "[next_ref s ..< next_ref s + length (nm # nms)] =
      next_ref s # [Suc (next_ref s) ..< Suc (next_ref s) + length nms]"
    using upt_shift [of "next_ref s" "length nms"] by simp
  show ?case using ih unfolding u by (simp add: split_beta start_span_fields del: upt_Suc)
qed

lemma end_spans_inv:
  "tracer_inv s \<Longrightarrow> spans_list s = pre @ tops \<Longrightarrow>
     fst (end_spans (length tops) s) = Inr (map Some (rev tops)) \<and>
     spans_list (snd (end_spans (length tops) s)) = pre \<and>
     tracer_inv (snd (end_spans (length tops) s)) \<and>
     (\<forall>r. r \<in> set tops \<or> end_time (heap s r) \<noteq> None \<longrightarrow>
          end_time (heap (snd (end_spans (length tops) s)) r) \<noteq> None)"
proof (induction tops arbitrary: s rule: rev_induct)
  case Nil
  then show ?case by simp
next
  case (snoc c tops)
  obtain x s1 where e0: "end_span s = (x, s1)" by (cases "end_span s")
  then have s1: "snd (end_span s) = s1" and x: "fst (end_span s) = x" by simp_all
  from snoc.prems(2) have l: "spans_list s = (pre @ tops) @ [c]" by simp
  note es = end_span_top [OF snoc.prems(1) l, unfolded s1 x]
  have inv1: "tracer_inv s1" using end_span_inv [OF snoc.prems(1)] s1 by simp
  note ih = snoc.IH [OF inv1 es(2)]
  have e: "end_span s = (Inr (Some c), s1)" using e0 es(1) by simp
  obtain res s2 where r2: "end_spans (length tops) s1 = (res, s2)"
    by (cases "end_spans (length tops) s1")
  with ih have res: "res = Inr (map Some (rev tops))" and l2: "spans_list s2 = pre"
    and inv2: "tracer_inv s2"
    and t2: "\<And>r. r \<in> set tops \<or> end_time (heap s1 r) \<noteq> None \<Longrightarrow> end_time (heap s2 r) \<noteq> None"
    by auto
  have step: "end_spans (length (tops @ [c])) s = (Inr (Some c # map Some (rev tops)), s2)"
    using e r2 res by simp
  have "\<And>r. r \<in> set (tops @ [c]) \<or> end_time (heap s r) \<noteq> None \<Longrightarrow> end_time (heap s2 r) \<noteq> None"
  proof -
    fix r
    assume a: "r \<in> set (tops @ [c]) \<or> end_time (heap s r) \<noteq> None"
    have "r \<in> set tops \<or> end_time (heap s1 r) \<noteq> None"
      using a by (auto simp add: es(4))
    then show "end_time (heap s2 r) \<noteq> None" by (rule t2)
  qed
  with step l2 inv2 show ?case by simp
qed

subsection \<open>Exports\<close>

lemma new_tracer_export_inv: "export_inv (new_tracer sc now ids)"
  by (simp add: export_inv_def new_tracer_def export_count_def)

lemma start_span_export_inv:
  assumes inv: "tracer_inv s" and ex: "export_inv s"
  shows "export_inv (snd (start_span nm s))"
proof -
  let ?s' = "snd (start_span nm s)"
  from inv have lt: "\<And>x. x \<in> set (spans_list s) \<Longrightarrow> x < next_ref s"
    by (simp add: tracer_inv_def list_all_iff)
  have c: "\<And>r. export_count r ?s' = export_count r s"
    by (simp add: export_count_def start_span_fields)
  have 1: "\<And>r. export_count r ?s' =
      (if r < next_ref ?s' \<and> r \<notin> set (spans_list ?s') then 1 else 0)"
  proof -
    fix r
    from ex have "export_count r s = (if r < next_ref s \<and> r \<notin> set (spans_list s) then 1 else 0)"
      by (simp add: export_inv_def)
    then show "export_count r ?s' =
      (if r < next_ref ?s' \<and> r \<notin> set (spans_list ?s') then 1 else 0)"
      using lt [of r] by (auto simp add: c start_span_fields less_Suc_eq)
  qed
  have 2: "\<And>r. r < next_ref ?s' \<and> r \<notin> set (spans_list ?s') \<Longrightarrow> end_time (heap ?s' r) \<noteq> None"
  proof -
    fix r
    assume a: "r < next_ref ?s' \<and> r \<notin> set (spans_list ?s')"
    then have "r < next_ref s \<and> r \<notin> set (spans_list s) \<and> r \<noteq> next_ref s"
      by (auto simp add: start_span_fields less_Suc_eq)
    with ex show "end_time (heap ?s' r) \<noteq> None"
      by (simp add: export_inv_def start_span_fields)
  qed
  from 1 2 show ?thesis unfolding export_inv_def by blast
qed

lemma end_span_export_inv:
  assumes inv: "tracer_inv s" and ex: "export_inv s"
  shows "export_inv (snd (end_span s))"
proof (cases "spans_list s" rule: rev_cases)
  case Nil
  with inv have "current_span s = None" by (simp add: tracer_inv_def)
  with Nil ex show ?thesis by (simp add: end_span_noop export_inv_def export_count_def)
next
  case (snoc rs c)
  let ?s' = "snd (end_span s)"
  note es = end_span_top [OF inv snoc]
  have c: "\<And>r. export_count r ?s' = export_count r s + (if r = c then 1 else 0)"
    by (simp add: export_count_sources es(5))
  have 1: "\<And>r. export_count r ?s' =
      (if r < next_ref ?s' \<and> r \<notin> set (spans_list ?s') then 1 else 0)"
  proof -
    fix r
    from ex have "export_count r s = (if r < next_ref s \<and> r \<notin> set (spans_list s) then 1 else 0)"
      by (simp add: export_inv_def)
    then show "export_count r ?s' =
      (if r < next_ref ?s' \<and> r \<notin> set (spans_list ?s') then 1 else 0)"
      using es(6,7) by (auto simp add: c es(2,3) snoc)
  qed
  have 2: "\<And>r. r < next_ref ?s' \<and> r \<notin> set (spans_list ?s') \<Longrightarrow> end_time (heap ?s' r) \<noteq> None"
  proof -
    fix r
    assume a: "r < next_ref ?s' \<and> r \<notin> set (spans_list ?s')"
    show "end_time (heap ?s' r) \<noteq> None"
    proof (cases "r = c")
      case True
      then show ?thesis by (simp add: es(4))
    next
      case False
      with a have "r < next_ref s \<and> r \<notin> set (spans_list s)" by (simp add: es(2,3) snoc)
      with ex False show ?thesis by (simp add: export_inv_def es(4))
    qed
  qed
  from 1 2 show ?thesis unfolding export_inv_def by blast
qed

lemma run_export_inv:
  "tracer_inv s \<Longrightarrow> export_inv s \<Longrightarrow>
     \<exists>s'. run calls s = Inr s' \<and> tracer_inv s' \<and> export_inv s'"
proof (induction calls arbitrary: s)
  case Nil
  then show ?case by simp
next
  case (Cons c calls)
  show ?case
  proof (cases c)
    case (StartSpan nm)
    then show ?thesis
      using Cons.IH [OF start_span_inv [OF Cons.prems(1)] start_span_export_inv [OF Cons.prems]]
      by simp
  next
    case EndSpan
    obtain x s1 where e: "end_span s = (x, s1)" by (cases "end_span s")
    with end_span_returns [OF Cons.prems(1)] obtain y where "x = Inr y" by simp
    moreover from e end_span_inv [OF Cons.prems(1)] have "tracer_inv s1" by simp
    moreover from e end_span_export_inv [OF Cons.prems] have "export_inv s1" by simp
    ultimately show ?thesis using EndSpan e Cons.IH [of s1] by simp
  qed
qed

lemma finish_export_inv:
  assumes "tracer_inv s" and "export_inv s"
  shows "\<exists>s'. finish s = Some (Inr (), s') \<and> spans_list s' = [] \<and> next_ref s' = next_ref s \<and>
           export_inv s'"
proof -
  let ?P = "\<lambda>t. tracer_inv t \<and> export_inv t \<and> next_ref t = next_ref s"
  have "\<exists>s'. finish s = Some (Inr (), s') \<and> spans_list s' = [] \<and> ?P s'"
  proof (rule finish_rule [where P = ?P])
    fix t rs c
    assume p: "?P t" and l: "spans_list t = rs @ [c]"
    then have i: "tracer_inv t" and e: "export_inv t" by simp_all
    note es = end_span_top [OF i l]
    from es(1,2,3) p end_span_inv [OF i] end_span_export_inv [OF i e]
    show "(\<exists>x. fst (end_span t) = Inr x) \<and> spans_list (snd (end_span t)) = rs \<and>
         ?P (snd (end_span t))" by simp
  next
    from assms show "?P s" by simp
  qed
  then show ?thesis by blast
qed

subsection \<open>Error paths\<close>
















subsection \<open>Chains of child spans\<close>





subsection \<open>The example inputs, evaluated\<close>




section \<open>The claims\<close>

text \<open>
  C1. For every sequence of \<open>start_span\<close> and \<open>end_span\<close> calls on one tracer in one
  task, starting from a new tracer, no call raises, and in the state reached the
  store's current span is the most recently appended span of the open-span list, or
  none when the list is empty. Every prefix of a sequence is a sequence, so this
  holds at every point between calls.
\<close>

theorem top_of_stack_is_current_span:
  "\<exists>s. run calls (new_tracer sc now ids) = Inr s \<and>
     current_span s = (if spans_list s = [] then None else Some (last (spans_list s)))"
  using run_inv [OF new_tracer_inv, of calls sc now ids] by (auto simp add: tracer_inv_def)

theorem top_of_stack_is_current_span_witness:
  "\<exists>s. run [StartSpan ''a'', StartSpan ''b'', EndSpan] (new_tracer example_context 0 example_ids)
          = Inr s \<and>
       spans_list s = [0] \<and> current_span s = Some 0 \<and>
       current_span s = (if spans_list s = [] then None else Some (last (spans_list s)))"
  using top_of_stack_is_current_span
    [of "[StartSpan ''a'', StartSpan ''b'', EndSpan]" example_context 0 example_ids]
  by (simp add: eval_defs iter_span_leaf)

text \<open>
  C2. For every N \<ge> 1, N nested \<open>start_span\<close> calls on a new tracer leave an
  open-span list of depth N, the spans in the order they were started, and the N-th
  span as current span; N calls of \<open>end_span\<close> then return the spans in reverse order
  of creation, each with its end time set, and leave the list empty and no current
  span.
\<close>

theorem nested_spans_end_in_reverse_order:
  assumes "nms \<noteq> []"
  shows "\<exists>rs s s'. start_spans nms (new_tracer sc now ids) = (rs, s) \<and>
      length rs = length nms \<and> distinct rs \<and> spans_list s = rs \<and>
      length (spans_list s) = length nms \<and> current_span s = Some (last rs) \<and>
      end_spans (length nms) s = (Inr (map Some (rev rs)), s') \<and>
      list_all (\<lambda>r. end_time (heap s' r) \<noteq> None) rs \<and>
      spans_list s' = [] \<and> current_span s' = None"
proof -
  let ?s0 = "new_tracer sc now ids"
  let ?rs = "[0 ..< length nms]"
  obtain rs s where st: "start_spans nms ?s0 = (rs, s)" by (cases "start_spans nms ?s0")
  have n0: "next_ref ?s0 = 0" and l0: "spans_list ?s0 = []" by (simp_all add: new_tracer_def)
  from start_spans_inv [OF new_tracer_inv, of nms sc now ids] st n0 l0
  have rs: "rs = ?rs" and l: "spans_list s = rs" and inv: "tracer_inv s" by simp_all
  from rs assms have ne: "rs \<noteq> []" and len: "length rs = length nms" and d: "distinct rs"
    by simp_all
  from inv l ne have cur: "current_span s = Some (last rs)" by (simp add: tracer_inv_def)
  obtain res s' where en: "end_spans (length rs) s = (res, s')" by (cases "end_spans (length rs) s")
  from end_spans_inv [OF inv, of "[]" rs] l en
  have res: "res = Inr (map Some (rev rs))" and l': "spans_list s' = []" and inv': "tracer_inv s'"
    and t: "\<forall>r. r \<in> set rs \<or> end_time (heap s r) \<noteq> None \<longrightarrow> end_time (heap s' r) \<noteq> None"
    by simp_all
  from inv' l' have cur': "current_span s' = None" by (simp add: tracer_inv_def)
  from t have ended: "list_all (\<lambda>r. end_time (heap s' r) \<noteq> None) rs" by (simp add: list_all_iff)
  from st len d l cur en res ended l' cur' show ?thesis by simp
qed

theorem nested_spans_end_in_reverse_order_witness:
  "[''a'', ''b'', ''c''] \<noteq> ([] :: string list) \<and>
   (\<exists>s s'. start_spans [''a'', ''b'', ''c''] (new_tracer example_context 0 example_ids)
              = ([0, 1, 2], s) \<and>
      spans_list s = [0, 1, 2] \<and> current_span s = Some 2 \<and>
      end_spans 3 s = (Inr [Some 2, Some 1, Some 0], s') \<and>
      list_all (\<lambda>r. end_time (heap s' r) \<noteq> None) [0, 1, 2] \<and>
      spans_list s' = [] \<and> current_span s' = None)"
proof -
  have ne: "[''a'', ''b'', ''c''] \<noteq> ([] :: string list)" by simp
  from nested_spans_end_in_reverse_order [OF ne, of example_context 0 example_ids]
  obtain rs s s' where
    st: "start_spans [''a'', ''b'', ''c''] (new_tracer example_context 0 example_ids) = (rs, s)"
    and rest: "length rs = length [''a'', ''b'', ''c'']" "distinct rs" "spans_list s = rs"
      "current_span s = Some (last rs)"
      "end_spans (length [''a'', ''b'', ''c'']) s = (Inr (map Some (rev rs)), s')"
      "list_all (\<lambda>r. end_time (heap s' r) \<noteq> None) rs" "spans_list s' = []"
      "current_span s' = None"
    by blast
  have "fst (start_spans [''a'', ''b'', ''c''] (new_tracer example_context 0 example_ids))
      = [0, 1, 2]"
    by (simp add: eval_defs split_beta)
  with st have rs: "rs = [0, 1, 2]" by simp
  have three: "length [''a'', ''b'', ''c''] = (3 :: nat)" by simp
  from st rest show ?thesis unfolding rs three by (intro conjI exI [of _ s] exI [of _ s']) simp_all
qed

text \<open>
  C3. After every sequence of \<open>start_span\<close> and \<open>end_span\<close> calls on a new tracer, each
  span the tracer has started (the span objects below \<open>next_ref\<close>) that is no longer
  in the open-span list has its end time set and exactly one record among all batches
  the exporter received; a span still in the list has none yet. \<open>finish\<close> then
  returns with the list empty and exactly one record for every span ever started:
  none is exported twice, also not as part of a batch of an ancestor that ends later.
\<close>

theorem each_span_exported_exactly_once:
  "\<exists>s. run calls (new_tracer sc now ids) = Inr s \<and>
     (\<forall>r < next_ref s.
        if r \<in> set (spans_list s) then export_count r s = 0
        else export_count r s = 1 \<and> end_time (heap s r) \<noteq> None) \<and>
     (\<exists>s'. finish s = Some (Inr (), s') \<and> spans_list s' = [] \<and> next_ref s' = next_ref s \<and>
        (\<forall>r < next_ref s'. export_count r s' = 1 \<and> end_time (heap s' r) \<noteq> None))"
proof -
  from run_export_inv [OF new_tracer_inv new_tracer_export_inv, of calls sc now ids]
  obtain s where r: "run calls (new_tracer sc now ids) = Inr s" and i: "tracer_inv s"
    and e: "export_inv s" by blast
  from finish_export_inv [OF i e] obtain s' where f: "finish s = Some (Inr (), s')"
    and l: "spans_list s' = []" and n: "next_ref s' = next_ref s" and e': "export_inv s'"
    by blast
  from e have 1: "\<forall>r < next_ref s.
        if r \<in> set (spans_list s) then export_count r s = 0
        else export_count r s = 1 \<and> end_time (heap s r) \<noteq> None"
    by (simp add: export_inv_def)
  from e' l have 2: "\<forall>r < next_ref s'. export_count r s' = 1 \<and> end_time (heap s' r) \<noteq> None"
    by (simp add: export_inv_def)
  from r 1 f l n 2 show ?thesis by blast
qed

theorem each_span_exported_exactly_once_witness:
  "\<exists>s. run example_calls (new_tracer example_context 0 example_ids) = Inr s \<and>
     next_ref s = 3 \<and> spans_list s = [0, 2] \<and>
     export_count 0 s = 0 \<and> export_count 1 s = 1 \<and> export_count 2 s = 0 \<and>
     end_time (heap s 1) \<noteq> None \<and>
     (\<exists>s'. finish s = Some (Inr (), s') \<and> spans_list s' = [] \<and>
        export_count 0 s' = 1 \<and> export_count 1 s' = 1 \<and> export_count 2 s' = 1 \<and>
        end_time (heap s' 0) \<noteq> None \<and> end_time (heap s' 1) \<noteq> None \<and>
        end_time (heap s' 2) \<noteq> None)"
proof -
  from each_span_exported_exactly_once [of example_calls example_context 0 example_ids]
  obtain s s' where r: "run example_calls (new_tracer example_context 0 example_ids) = Inr s"
    and a: "\<forall>r < next_ref s.
        if r \<in> set (spans_list s) then export_count r s = 0
        else export_count r s = 1 \<and> end_time (heap s r) \<noteq> None"
    and f: "finish s = Some (Inr (), s')" and l: "spans_list s' = []"
    and n: "next_ref s' = next_ref s"
    and b: "\<forall>r < next_ref s'. export_count r s' = 1 \<and> end_time (heap s' r) \<noteq> None"
    by blast
  from r have n3: "next_ref s = 3" and l3: "spans_list s = [0, 2]"
    by (auto simp add: example_calls_def eval_defs iter_span_leaf)
  from a n3 l3 have a': "export_count 0 s = 0" "export_count 1 s = 1" "export_count 2 s = 0"
    "end_time (heap s 1) \<noteq> None"
    by auto
  from b n n3 have b': "export_count 0 s' = 1 \<and> export_count 1 s' = 1 \<and> export_count 2 s' = 1 \<and>
        end_time (heap s' 0) \<noteq> None \<and> end_time (heap s' 1) \<noteq> None \<and>
        end_time (heap s' 2) \<noteq> None"
    by auto
  from r n3 l3 a' f l b' show ?thesis by blast
qed






text \<open>
  C6. The decorated form: for every function \<open>f\<close>, \<open>AsyncSpan(f)\<close> is built, and
  awaiting \<open>AsyncSpan(f)(args)\<close> raises \<open>AttributeError\<close> at \<open>with self\<close> in every
  state, for every argument list: \<open>f\<close> is not called, no span is started, the state is
  unchanged.
\<close>

theorem decorated_call_raises:
  "AsyncSpan (Callable f) nm = Inr \<lparr>as_name = nm, as_function = Some f\<rparr> \<and>
   AsyncSpan_call call_fn \<lparr>as_name = nm, as_function = Some f\<rparr> args s =
     (Inl (AttributeError ''__enter__''), s)"
  by (simp add: AsyncSpan_def AsyncSpan_call_def with_stmt_def AsyncSpan_methods_def)

text \<open>
  C7. \<open>add_attribute_to_current_span\<close> called while the store holds no current span
  raises \<open>AttributeError\<close>; the attribute is stored nowhere (the state is unchanged).
\<close>

theorem add_attribute_without_current_span_raises:
  "current_span s = None \<Longrightarrow>
     add_attribute_to_current_span k v s =
       (Inl (AttributeError ''NoneType object has no attribute add_attribute''), s)"
  by (simp add: add_attribute_to_current_span_def)

theorem add_attribute_without_current_span_raises_witness:
  "current_span example_tracer = None \<and>
   add_attribute_to_current_span ''error'' (PBool True) example_tracer =
     (Inl (AttributeError ''NoneType object has no attribute add_attribute''), example_tracer)"
proof -
  have h: "current_span example_tracer = None" by (simp add: eval_defs)
  show ?thesis using h add_attribute_without_current_span_raises [OF h] by simp
qed

text \<open>
  C8. With no tracer in the store and a command passed by keyword (so \<open>args\<close> is
  empty), the wrapped call would return \<open>PONG\<close>, and \<open>wrap_execute\<close> raises
  \<open>IndexError\<close> instead of calling it.
\<close>

theorem wrap_execute_keyword_command_raises:
  "get_opencensus_tracer example_tracer = None \<and>
   wrapped_pong [] [(''command'', PStr ''PING'')] example_tracer =
     (Inr (PStr ''PONG''), example_tracer) \<and>
   wrap_execute wrapped_pong example_connection [] [(''command'', PStr ''PING'')] example_tracer =
     (Inl (IndexError ''tuple index out of range''), example_tracer)"
  by (simp add: wrap_execute_def wrapped_pong_def get_opencensus_tracer_def example_tracer_def
      new_tracer_def)

text \<open>With at least one positional argument and no tracer in the store, the wrapper is
  the wrapped call: same result or exception, same state.\<close>

lemma wrap_execute_passes_through:
  "get_opencensus_tracer s = None \<Longrightarrow> args \<noteq> [] \<Longrightarrow>
     wrap_execute wrapped inst args kwargs s = wrapped args kwargs s"
  by (cases args) (simp_all add: wrap_execute_def)

text \<open>
  C9. For a request whose URL the deny list of paths matches, the request phase of
  the middleware returns with the request (its \<open>tracer\<close> entry included) and the
  state (heap of spans, tracer, context store) unchanged.
\<close>

theorem denylisted_path_is_not_traced:
  "disable_url (req_url request) (blacklist_paths self) = Inr True \<Longrightarrow>
     do_trace_request disable_url self request s = (Inr (), request, s)"
  by (simp add: do_trace_request_def)

theorem denylisted_path_is_not_traced_witness:
  "disable_tracing_url (req_url health_request) (blacklist_paths example_middleware) = Inr True \<and>
   do_trace_request disable_tracing_url example_middleware health_request example_tracer =
     (Inr (), health_request, example_tracer)"
proof -
  have h: "disable_tracing_url (req_url health_request) (blacklist_paths example_middleware) =
      Inr True"
    by (simp add: disable_tracing_url_def strip_scheme_def health_request_def
        example_middleware_def)
  show ?thesis
    using h denylisted_path_is_not_traced
      [of disable_tracing_url health_request example_middleware example_tracer]
    by simp
qed




end
